theory Spec2Isabelle
  imports Complex_Main
begin

section \<open>Text\<close>

text \<open>
  A Python \<open>str\<close> is a sequence of Unicode code points, so text is a list of code
  points here (a HOL \<open>char\<close> is a byte and cannot hold the euro sign).
  \<open>str\<close> turns an ASCII literal into such a text.
\<close>

type_synonym ustr = "nat list"

definition str :: "string \<Rightarrow> ustr" where
  "str s = map of_char s"

definition euro :: nat where "euro = 8364"
definition nbsp :: nat where "nbsp = 160"
definition space :: nat where "space = 32"
definition comma :: nat where "comma = 44"
definition full_stop :: nat where "full_stop = 46"
definition hyphen_minus :: nat where "hyphen_minus = 45"

text \<open>
  \<open>str.isspace\<close> of one code point: the white space that \<open>str.strip()\<close> with no
  argument removes.
\<close>

definition is_space :: "nat \<Rightarrow> bool" where
  "is_space c \<longleftrightarrow>
     (9 \<le> c \<and> c \<le> 13) \<or> (28 \<le> c \<and> c \<le> 32) \<or> c = 133 \<or> c = 160 \<or> c = 5760 \<or>
     (8192 \<le> c \<and> c \<le> 8202) \<or> c = 8232 \<or> c = 8233 \<or> c = 8239 \<or> c = 8287 \<or>
     c = 12288"

definition strip :: "ustr \<Rightarrow> ustr" where
  "strip s = rev (dropWhile is_space (rev (dropWhile is_space s)))"

text \<open>\<open>s.replace(old, new)\<close> for a one-character \<open>old\<close>; \<open>new\<close> is any text.\<close>

definition replace :: "nat \<Rightarrow> ustr \<Rightarrow> ustr \<Rightarrow> ustr" where
  "replace old new s = concat (map (\<lambda>c. if c = old then new else [c]) s)"

section \<open>Price normalizer\<close>

text \<open>
  The pattern \<open>\d\<close> of a Python 3 \<open>str\<close> pattern matches every Unicode decimal
  digit, and \<open>float\<close> reads them all. The ASCII digits are fixed; the decimal digits
  beyond ASCII come from the Unicode character database of the interpreter, which is a
  parameter: \<open>ucd c\<close> is the digit value of the code point \<open>c\<close>, when it is one.
\<close>

type_synonym ucd = "nat \<Rightarrow> nat option"

definition digit_value :: "ucd \<Rightarrow> nat \<Rightarrow> nat option" where
  "digit_value db c =
     (if 48 \<le> c \<and> c \<le> 57 then Some (c - 48) else if c < 128 then None else db c)"

definition is_digit :: "ucd \<Rightarrow> nat \<Rightarrow> bool" where
  "is_digit db c \<longleftrightarrow> digit_value db c \<noteq> None"

text \<open>
  \<open>re.search(r"(-?\d+(?:\.\d+)?)", s)\<close>. \<open>unsigned_at\<close> is \<open>\d+(?:\.\d+)?\<close>
  anchored at the head of the text: the greedy \<open>\d+\<close> takes every digit, and the
  optional group takes a full stop only when a digit follows it. \<open>number_at\<close> puts
  \<open>-?\<close> in front: the sign is tried first and given back when no digit follows.
  \<open>re_search\<close> is the leftmost position where the pattern matches; the result is
  \<open>match.group(1)\<close>.
\<close>

definition unsigned_at :: "ucd \<Rightarrow> ustr \<Rightarrow> ustr option" where
  "unsigned_at db s =
     (let ip = takeWhile (is_digit db) s; r = dropWhile (is_digit db) s in
      if ip = [] then None
      else (case r of
              [] \<Rightarrow> Some ip
            | c # f \<Rightarrow>
                if c = full_stop \<and> takeWhile (is_digit db) f \<noteq> []
                then Some (ip @ c # takeWhile (is_digit db) f)
                else Some ip))"

definition number_at :: "ucd \<Rightarrow> ustr \<Rightarrow> ustr option" where
  "number_at db s =
     (case s of
        [] \<Rightarrow> None
      | c # r \<Rightarrow>
          if c = hyphen_minus then
            (case unsigned_at db r of
               Some m \<Rightarrow> Some (c # m)
             | None \<Rightarrow> unsigned_at db s)
          else unsigned_at db s)"

fun re_search :: "ucd \<Rightarrow> ustr \<Rightarrow> ustr option" where
  "re_search db [] = None"
| "re_search db (c # s) =
     (case number_at db (c # s) of
        Some m \<Rightarrow> Some m
      | None \<Rightarrow> re_search db s)"

datatype error =
    ValueError
  | Timeout
  | ConnectionError
  | HTTPError nat
  | SelectorSyntaxError
  | OSError
  | SystemExit ustr
  | RuntimeError ustr
  | APIError

text \<open>
  A Python float is a binary64 double: a sign bit and either a finite magnitude or
  infinity (the sign bit is \<open>True\<close> for a negative number, and minus zero is a
  double of its own). \<open>float(text)\<close> gives the double nearest to the number that
  the decimal text denotes, a tie going to the even mantissa, and infinity when the
  number is beyond the doubles.

  \<open>bit_length\<close> is \<open>int.bit_length\<close>. \<open>floor_log2 q\<close> is the integer part of
  the binary logarithm of a positive \<open>q\<close>. \<open>binary64 q\<close> is the magnitude that a
  magnitude \<open>q\<close> is rounded to, with 53 bits of mantissa, no exponent below that of
  the subnormal numbers, and no bound above: a result of \<open>2 ^ 1024\<close> or more is the
  overflow.
\<close>

function bit_length :: "int \<Rightarrow> int" where
  "bit_length n = (if n \<le> 0 then 0 else 1 + bit_length (n div 2))"
  by pat_completeness auto
termination
  by (relation "measure nat") auto

declare bit_length.simps [simp del]

definition floor_log2 :: "rat \<Rightarrow> int" where
  "floor_log2 q =
     (if 1 \<le> q then bit_length \<lfloor>q\<rfloor> - 1 else - bit_length (\<lceil>1 / q\<rceil> - 1))"

definition pow2 :: "int \<Rightarrow> rat" where
  "pow2 e = (if 0 \<le> e then 2 ^ nat e else 1 / 2 ^ nat (- e))"

definition round_half_even :: "rat \<Rightarrow> int" where
  "round_half_even x =
     (let n = \<lfloor>x\<rfloor>; r = x - of_int n in
      if r < 1 / 2 then n else if 1 / 2 < r then n + 1 else if even n then n else n + 1)"

definition binary64 :: "rat \<Rightarrow> rat" where
  "binary64 q =
     (if q \<le> 0 then 0
      else let e = max (floor_log2 q - 52) (- 1074) in
           of_int (round_half_even (q / pow2 e)) * pow2 e)"

datatype double = Finite bool rat | Infinite bool

definition to_double :: "bool \<Rightarrow> rat \<Rightarrow> double" where
  "to_double negative q =
     (if 2 ^ 1024 \<le> binary64 q then Infinite negative else Finite negative (binary64 q))"

text \<open>
  \<open>float(text)\<close> on the texts the pattern can produce: an optional sign, digits, and
  possibly a full stop and more digits. \<open>decimal_value\<close> is the number that the
  unsigned text denotes, and \<open>float\<close> rounds it to a double. Any other text is
  answered with \<open>ValueError\<close> here; \<open>float\<close> itself reads more (exponents,
  \<open>inf\<close>), which the pattern never hands over.
\<close>

definition digits_value :: "ucd \<Rightarrow> ustr \<Rightarrow> nat" where
  "digits_value db ds =
     foldl (\<lambda>a c. 10 * a + (case digit_value db c of Some d \<Rightarrow> d | None \<Rightarrow> 0)) 0 ds"

definition decimal_value :: "ucd \<Rightarrow> ustr \<Rightarrow> error + rat" where
  "decimal_value db s =
     (let ip = takeWhile (is_digit db) s; r = dropWhile (is_digit db) s in
      if ip = [] then Inl ValueError
      else (case r of
              [] \<Rightarrow> Inr (of_nat (digits_value db ip))
            | c # f \<Rightarrow>
                if c = full_stop \<and> f \<noteq> [] \<and> list_all (is_digit db) f
                then Inr (of_nat (digits_value db ip)
                          + of_nat (digits_value db f) / 10 ^ length f)
                else Inl ValueError))"

definition float :: "ucd \<Rightarrow> ustr \<Rightarrow> error + double" where
  "float db s =
     (case s of
        [] \<Rightarrow> Inl ValueError
      | c # r \<Rightarrow>
          if c = hyphen_minus then
            (case decimal_value db r of Inl e \<Rightarrow> Inl e | Inr v \<Rightarrow> Inr (to_double True v))
          else
            (case decimal_value db s of Inl e \<Rightarrow> Inl e | Inr v \<Rightarrow> Inr (to_double False v)))"

definition normalize_price :: "ucd \<Rightarrow> ustr \<Rightarrow> double option" where
  "normalize_price db raw =
     (let cleaned = strip (replace nbsp [space] (replace euro [] raw));
          cleaned = replace comma [full_stop] cleaned
      in case re_search db cleaned of
           None \<Rightarrow> None
         | Some m \<Rightarrow> (case float db m of Inr v \<Rightarrow> Some v | Inl e \<Rightarrow> None))"

text \<open>A fragment of the digit table, for evaluation: the Arabic-Indic digits.\<close>

definition ucd_sample :: ucd where
  "ucd_sample c = (if 1632 \<le> c \<and> c \<le> 1641 then Some (c - 1632) else None)"


text \<open>
  The price normalizer as section 4.1 of the specification words it: the currency
  symbol and the non-breaking spaces are both stripped out of the text. It is compared
  with \<open>normalize_price\<close>, which is the code.
\<close>

definition spec_normalize_price :: "ucd \<Rightarrow> ustr \<Rightarrow> double option" where
  "spec_normalize_price db raw =
     (let cleaned = strip (replace nbsp [] (replace euro [] raw));
          cleaned = replace comma [full_stop] cleaned
      in case re_search db cleaned of
           None \<Rightarrow> None
         | Some m \<Rightarrow> (case float db m of Inr v \<Rightarrow> Some v | Inl e \<Rightarrow> None))"

section \<open>Parsed pages\<close>

text \<open>
  A parsed page is a tree of tags; a tag has a name, a dictionary of attributes and
  contents, which are strings and tags in document order.
\<close>

datatype tag = Tag (tag_name: ustr) (attrs: "ustr \<Rightarrow> ustr option") (contents: "content list")
  and content = NavigableString ustr | Child tag

text \<open>
  What the program runs against and does not contain: the Unicode digit table, the CSS
  selector engine (every descendant of the node that matches, in document order, or
  \<open>SelectorSyntaxError\<close> for a selector it cannot read), the HTTP session, the HTML
  parser, the textual form of a float, whether a path can be opened for writing,
  whether the spreadsheet client library was imported, and whether the spreadsheet
  service opens the worksheet for the given credentials.
\<close>

record response =
  status_code :: nat
  resp_text :: ustr

record env =
  ucd_db :: ucd
  css :: "ustr \<Rightarrow> tag \<Rightarrow> error + tag list"
  http_get :: "ustr \<Rightarrow> error + response"
  html_parser :: "ustr \<Rightarrow> tag"
  float_repr :: "double \<Rightarrow> ustr"
  writable :: "ustr \<Rightarrow> bool"
  gspread_imported :: bool
  worksheet_opens :: "ustr \<Rightarrow> ustr \<Rightarrow> ustr \<Rightarrow> bool"

record card =
  name :: ustr
  price :: "double option"
  image_url :: ustr

record selectors =
  card_sel :: ustr
  name_sel :: ustr
  price_sel :: ustr
  image_sel :: ustr
  next_page_sel :: ustr

text \<open>Truth value of an \<open>Optional[str]\<close>: \<open>None\<close> and the empty text are false.\<close>

fun truthy :: "ustr option \<Rightarrow> bool" where
  "truthy None = False"
| "truthy (Some s) = (s \<noteq> [])"

definition select_one :: "env \<Rightarrow> tag \<Rightarrow> ustr \<Rightarrow> error + tag option" where
  "select_one e node selector =
     (case css e selector node of
        Inl err \<Rightarrow> Inl err
      | Inr [] \<Rightarrow> Inr None
      | Inr (t # _) \<Rightarrow> Inr (Some t))"

text \<open>
  \<open>get_text(strip=True)\<close>: every string below the tag, in document order, each
  stripped, the empty ones dropped, joined with nothing between them.
\<close>

fun strings :: "tag \<Rightarrow> ustr list"
  and content_strings :: "content \<Rightarrow> ustr list" where
  "strings (Tag n a cs) = concat (map content_strings cs)"
| "content_strings (NavigableString s) = [s]"
| "content_strings (Child t) = strings t"

definition get_text_strip :: "tag \<Rightarrow> ustr" where
  "get_text_strip t = concat (filter (\<lambda>s. s \<noteq> []) (map strip (strings t)))"

section \<open>Field extractor and page parser\<close>

definition extract_text :: "env \<Rightarrow> tag \<Rightarrow> ustr \<Rightarrow> error + ustr" where
  "extract_text e node selector =
     (case select_one e node selector of
        Inl err \<Rightarrow> Inl err
      | Inr None \<Rightarrow> Inr []
      | Inr (Some target) \<Rightarrow> Inr (get_text_strip target))"

text \<open>\<open>x or y\<close> on an attribute lookup \<open>x\<close>: a missing or empty \<open>x\<close> gives \<open>y\<close>.\<close>

fun or_else :: "ustr option \<Rightarrow> ustr \<Rightarrow> ustr" where
  "or_else None y = y"
| "or_else (Some s) y = (if s \<noteq> [] then s else y)"

definition extract_image :: "env \<Rightarrow> tag \<Rightarrow> ustr \<Rightarrow> error + ustr" where
  "extract_image e node selector =
     (case select_one e node selector of
        Inl err \<Rightarrow> Inl err
      | Inr None \<Rightarrow> Inr []
      | Inr (Some target) \<Rightarrow>
          Inr (or_else (attrs target (str ''src''))
                (or_else (attrs target (str ''data-src'')) [])))"

text \<open>The body of the loop of \<open>parse_cards\<close>, for one card container.\<close>

definition parse_card :: "env \<Rightarrow> selectors \<Rightarrow> tag \<Rightarrow> error + card" where
  "parse_card e sels card_node =
     (case extract_text e card_node (name_sel sels) of
        Inl err \<Rightarrow> Inl err
      | Inr nm \<Rightarrow>
          (case extract_text e card_node (price_sel sels) of
             Inl err \<Rightarrow> Inl err
           | Inr price_text \<Rightarrow>
               (case extract_image e card_node (image_sel sels) of
                  Inl err \<Rightarrow> Inl err
                | Inr img \<Rightarrow>
                    Inr \<lparr>name = nm, price = normalize_price (ucd_db e) price_text,
                         image_url = img\<rparr>)))"

fun parse_loop :: "env \<Rightarrow> selectors \<Rightarrow> tag list \<Rightarrow> card list \<Rightarrow> error + card list" where
  "parse_loop e sels [] cards = Inr cards"
| "parse_loop e sels (card_node # nodes) cards =
     (case parse_card e sels card_node of
        Inl err \<Rightarrow> Inl err
      | Inr c \<Rightarrow> parse_loop e sels nodes (cards @ [c]))"

definition parse_cards :: "env \<Rightarrow> tag \<Rightarrow> selectors \<Rightarrow> error + card list" where
  "parse_cards e soup sels =
     (case css e (card_sel sels) soup of
        Inl err \<Rightarrow> Inl err
      | Inr nodes \<Rightarrow> parse_loop e sels nodes [])"

definition find_next_page :: "env \<Rightarrow> tag \<Rightarrow> selectors \<Rightarrow> error + ustr option" where
  "find_next_page e soup sels =
     (case select_one e soup (next_page_sel sels) of
        Inl err \<Rightarrow> Inl err
      | Inr None \<Rightarrow> Inr None
      | Inr (Some link) \<Rightarrow>
          (case attrs link (str ''href'') of
             None \<Rightarrow> Inr None
           | Some href \<Rightarrow> if href \<noteq> [] then Inr (Some href) else Inr None))"

section \<open>Pagination driver\<close>

text \<open>
  \<open>response.raise_for_status()\<close> of the HTTP library raises for a status from 400
  to 599 and for no other.
\<close>

definition raise_for_status :: "response \<Rightarrow> error + unit" where
  "raise_for_status r =
     (if 400 \<le> status_code r \<and> status_code r < 600 then Inl (HTTPError (status_code r))
      else Inr ())"

text \<open>
  What the driver does to the world, in order: a request for a URL, or a sleep.
  \<open>time.sleep\<close> raises \<open>ValueError\<close> for a negative length.
\<close>

datatype event = Get ustr | Sleep rat

record loop_state =
  collected :: "card list"
  pages_seen :: nat
  next_url :: "ustr option"
  trace :: "event list"

text \<open>\<open>max_pages and pages_seen >= max_pages\<close>: \<open>None\<close> and 0 are false.\<close>

definition limit_reached :: "int option \<Rightarrow> nat \<Rightarrow> bool" where
  "limit_reached max_pages seen =
     (case max_pages of None \<Rightarrow> False | Some m \<Rightarrow> m \<noteq> 0 \<and> m \<le> int seen)"

datatype flow = Raise error "event list" | Break loop_state | Next loop_state

text \<open>One pass through the body of the \<open>while\<close> loop, entered with \<open>next_url = u\<close>.\<close>

definition loop_body ::
  "env \<Rightarrow> selectors \<Rightarrow> rat \<Rightarrow> int option \<Rightarrow> ustr \<Rightarrow> loop_state \<Rightarrow> flow" where
  "loop_body e sels delay max_pages u st =
     (let tr = trace st @ [Get u] in
      case http_get e u of
        Inl err \<Rightarrow> Raise err tr
      | Inr response \<Rightarrow>
          (case raise_for_status response of
             Inl err \<Rightarrow> Raise err tr
           | Inr _ \<Rightarrow>
               (let soup = html_parser e (resp_text response) in
                case parse_cards e soup sels of
                  Inl err \<Rightarrow> Raise err tr
                | Inr cards \<Rightarrow>
                    (let st1 = st\<lparr>collected := collected st @ cards,
                                  pages_seen := pages_seen st + 1, trace := tr\<rparr> in
                     if limit_reached max_pages (pages_seen st1) then Break st1
                     else
                       (case find_next_page e soup sels of
                          Inl err \<Rightarrow> Raise err tr
                        | Inr nxt \<Rightarrow>
                            if truthy nxt then
                              (if delay < 0 then Raise ValueError tr
                               else Next (st1\<lparr>next_url := nxt,
                                              trace := tr @ [Sleep delay]\<rparr>))
                            else Next (st1\<lparr>next_url := nxt\<rparr>))))))"

text \<open>
  The \<open>while next_url:\<close> loop can run for ever (the pages may link in a circle), so
  it runs on fuel: one unit for each pass, and \<open>None\<close> when the fuel is gone before
  the loop ends. A run that ends gives what \<open>fetch_cards\<close> returns or raises,
  together with the requests and sleeps it made.
\<close>

fun fetch_loop ::
  "env \<Rightarrow> selectors \<Rightarrow> rat \<Rightarrow> int option \<Rightarrow> nat \<Rightarrow> loop_state
    \<Rightarrow> ((error + card list) \<times> event list) option" where
  "fetch_loop e sels delay max_pages 0 st =
     (if truthy (next_url st) then None else Some (Inr (collected st), trace st))"
| "fetch_loop e sels delay max_pages (Suc k) st =
     (case next_url st of
        None \<Rightarrow> Some (Inr (collected st), trace st)
      | Some u \<Rightarrow>
          if u = [] then Some (Inr (collected st), trace st)
          else
            (case loop_body e sels delay max_pages u st of
               Raise err tr \<Rightarrow> Some (Inl err, tr)
             | Break st' \<Rightarrow> Some (Inr (collected st'), trace st')
             | Next st' \<Rightarrow> fetch_loop e sels delay max_pages k st'))"

definition fetch_cards ::
  "env \<Rightarrow> ustr \<Rightarrow> selectors \<Rightarrow> rat \<Rightarrow> int option \<Rightarrow> nat
    \<Rightarrow> ((error + card list) \<times> event list) option" where
  "fetch_cards e url sels delay max_pages fuel =
     fetch_loop e sels delay max_pages fuel
       \<lparr>collected = [], pages_seen = 0, next_url = Some url, trace = []\<rparr>"


text \<open>
  The site serves at \<open>u\<close> a page that the program reads without error: the request
  is answered with a status that \<open>raise_for_status\<close> lets through, the card
  containers of the page, in document order, give the cards \<open>cs\<close>, and the
  next-page lookup gives \<open>nxt\<close>.
\<close>

definition serves :: "env \<Rightarrow> selectors \<Rightarrow> ustr \<Rightarrow> card list \<Rightarrow> ustr option \<Rightarrow> bool" where
  "serves e sels u cs nxt \<longleftrightarrow>
     (case http_get e u of
        Inl err \<Rightarrow> False
      | Inr r \<Rightarrow>
          raise_for_status r = Inr () \<and>
          (case css e (card_sel sels) (html_parser e (resp_text r)) of
             Inl err \<Rightarrow> False
           | Inr nodes \<Rightarrow> map (parse_card e sels) nodes = map Inr cs) \<and>
          find_next_page e (html_parser e (resp_text r)) sels = Inr nxt)"

text \<open>
  A trace in which a sleep stands only between two requests: requests and sleeps
  alternate, and the trace neither starts nor ends with a sleep.
\<close>

fun paced :: "event list \<Rightarrow> bool" where
  "paced [] = True"
| "paced [Get u] = True"
| "paced (Get u # Sleep d # Get v # es) = paced (Get v # es)"
| "paced es = False"

section \<open>Exporters\<close>

text \<open>
  \<open>csv.writer\<close> with the default dialect: a field is quoted when it holds the
  delimiter, the quote character, a carriage return or a line feed, and a quote
  character inside it is doubled; the fields of a row are joined by commas and the row
  ends with carriage return and line feed. A row of one empty field is written as two
  quote characters.
\<close>

definition quotechar :: nat where "quotechar = 34"
definition cr :: nat where "cr = 13"
definition lf :: nat where "lf = 10"

definition needs_quoting :: "ustr \<Rightarrow> bool" where
  "needs_quoting f \<longleftrightarrow> (\<exists>c\<in>set f. c = comma \<or> c = quotechar \<or> c = cr \<or> c = lf)"

definition csv_field :: "ustr \<Rightarrow> ustr" where
  "csv_field f =
     (if needs_quoting f
      then quotechar # replace quotechar [quotechar, quotechar] f @ [quotechar]
      else f)"

fun join_fields :: "ustr list \<Rightarrow> ustr" where
  "join_fields [] = []"
| "join_fields [f] = csv_field f"
| "join_fields (f # g # fs) = csv_field f @ comma # join_fields (g # fs)"

definition writerow :: "ustr list \<Rightarrow> ustr" where
  "writerow row =
     (if row = [[]] then [quotechar, quotechar] else join_fields row) @ [cr, lf]"

text \<open>
  A price is written as \<open>str\<close> of the float, an absent price as the empty text.
  The file is written as a text: the encoding of the text as UTF-8 is not modelled,
  nor the \<open>UnicodeEncodeError\<close> that a text with a lone surrogate raises in it.
\<close>

definition price_field :: "env \<Rightarrow> double option \<Rightarrow> ustr" where
  "price_field e p = (case p of None \<Rightarrow> [] | Some v \<Rightarrow> float_repr e v)"

definition card_row :: "env \<Rightarrow> card \<Rightarrow> ustr list" where
  "card_row e c = [name c, price_field e (price c), image_url c]"

definition header :: "ustr list" where
  "header = [str ''name'', str ''price'', str ''image_url'']"

fun write_rows :: "env \<Rightarrow> card list \<Rightarrow> ustr \<Rightarrow> ustr" where
  "write_rows e [] out = out"
| "write_rows e (c # cs) out = write_rows e cs (out @ writerow (card_row e c))"

datatype message = Wrote nat ustr | Uploaded nat ustr ustr

datatype cell = Str ustr | Num double

record system =
  files :: "ustr \<Rightarrow> ustr option"
  stdout :: "message list"
  sheets :: "ustr \<times> ustr \<Rightarrow> cell list list option"
  sent :: "event list"

definition write_csv :: "env \<Rightarrow> card list \<Rightarrow> ustr \<Rightarrow> system \<Rightarrow> error + system" where
  "write_csv e cards path sys =
     (if writable e path
      then Inr (sys\<lparr>files := (files sys)(path \<mapsto> write_rows e cards (writerow header))\<rparr>)
      else Inl OSError)"

definition sheet_row :: "card \<Rightarrow> cell list" where
  "sheet_row c =
     [Str (name c), (case price c of None \<Rightarrow> Str [] | Some v \<Rightarrow> Num v), Str (image_url c)]"

definition push_to_google_sheet ::
  "env \<Rightarrow> card list \<Rightarrow> ustr \<Rightarrow> ustr \<Rightarrow> ustr \<Rightarrow> system \<Rightarrow> error + system" where
  "push_to_google_sheet e cards spreadsheet_id ws credentials_path sys =
     (if \<not> gspread_imported e then
        Inl (RuntimeError (str ''gspread and google-auth are required for Google Sheets export. Install them first.''))
      else if \<not> worksheet_opens e credentials_path spreadsheet_id ws then Inl APIError
      else Inr (sys\<lparr>sheets := (sheets sys)((spreadsheet_id, ws) \<mapsto>
                  map Str header # map sheet_row cards)\<rparr>))"

section \<open>The program\<close>

record args =
  url :: ustr
  output_csv :: ustr
  delay :: rat
  max_pages :: "int option"
  card_selector :: ustr
  name_selector :: ustr
  price_selector :: ustr
  image_selector :: ustr
  next_selector :: ustr
  google_sheet_id :: "ustr option"
  worksheet :: ustr
  service_account :: "ustr option"

text \<open>
  \<open>main\<close> on parsed arguments: the outcome is the exception that ended the run, if
  any, and the system as the run left it; \<open>None\<close> when the fetch loop does not end
  within the fuel.
\<close>

definition selectors_of :: "args \<Rightarrow> selectors" where
  "selectors_of a =
     \<lparr>card_sel = card_selector a, name_sel = name_selector a,
      price_sel = price_selector a, image_sel = image_selector a,
      next_page_sel = next_selector a\<rparr>"

definition main :: "env \<Rightarrow> nat \<Rightarrow> args \<Rightarrow> system \<Rightarrow> (error option \<times> system) option" where
  "main e fuel a sys =
     (let sels = selectors_of a in
      case fetch_cards e (url a) sels (delay a) (max_pages a) fuel of
        None \<Rightarrow> None
      | Some (Inl err, tr) \<Rightarrow> Some (Some err, sys\<lparr>sent := sent sys @ tr\<rparr>)
      | Some (Inr cards, tr) \<Rightarrow>
          (let sys0 = sys\<lparr>sent := sent sys @ tr\<rparr> in
           case write_csv e cards (output_csv a) sys0 of
             Inl err \<Rightarrow> Some (Some err, sys0)
           | Inr sys1 \<Rightarrow>
               (let sys2 = sys1\<lparr>stdout := stdout sys1 @ [Wrote (length cards) (output_csv a)]\<rparr> in
                case google_sheet_id a of
                  None \<Rightarrow> Some (None, sys2)
                | Some sheet_id \<Rightarrow>
                    if sheet_id = [] then Some (None, sys2)
                    else if \<not> truthy (service_account a) then
                      Some (Some (SystemExit (str ''--service-account is required when --google-sheet-id is provided'')), sys2)
                    else
                      (case push_to_google_sheet e cards sheet_id (worksheet a)
                              (case service_account a of Some p \<Rightarrow> p | None \<Rightarrow> []) sys2 of
                         Inl err \<Rightarrow> Some (Some err, sys2)
                       | Inr sys3 \<Rightarrow>
                           Some (None, sys3\<lparr>stdout := stdout sys3 @
                                   [Uploaded (length cards) sheet_id (worksheet a)]\<rparr>)))))"


section \<open>A small site, for evaluation\<close>

text \<open>
  A selector engine that knows type selectors only: a selector is a tag name, and the
  empty selector is a syntax error.
\<close>

fun descendants :: "tag \<Rightarrow> tag list"
  and content_descendants :: "content \<Rightarrow> tag list" where
  "descendants (Tag n a cs) = concat (map content_descendants cs)"
| "content_descendants (NavigableString s) = []"
| "content_descendants (Child t) = t # descendants t"

definition sample_css :: "ustr \<Rightarrow> tag \<Rightarrow> error + tag list" where
  "sample_css selector node =
     (if selector = [] then Inl SelectorSyntaxError
      else Inr (filter (\<lambda>t. tag_name t = selector) (descendants node)))"

definition no_attrs :: "ustr \<Rightarrow> ustr option" where
  "no_attrs = (\<lambda>k. None)"

definition leaf :: "string \<Rightarrow> ustr \<Rightarrow> content" where
  "leaf n s = Child (Tag (str n) no_attrs [NavigableString s])"

definition img_src :: tag where
  "img_src = Tag (str ''img'') (no_attrs(str ''src'' \<mapsto> str ''pika.png'')) []"

definition img_lazy :: tag where
  "img_lazy =
     Tag (str ''img'') (no_attrs(str ''src'' \<mapsto> [], str ''data-src'' \<mapsto> str ''lazy.png'')) []"

definition card_pikachu :: tag where
  "card_pikachu =
     Tag (str ''div'') no_attrs
       [leaf ''h3'' (str '' Pikachu ''), leaf ''span'' (str ''12,50 '' @ [euro]), Child img_src]"

definition card_mew :: tag where
  "card_mew =
     Tag (str ''div'') no_attrs [leaf ''h3'' (str ''Mew''), leaf ''span'' (str ''N/A'')]"

definition card_onix :: tag where
  "card_onix =
     Tag (str ''div'') no_attrs
       [leaf ''h3'' (str ''Onix''), leaf ''span'' ([euro] @ str ''3''), Child img_lazy]"

definition link_to :: "ustr \<Rightarrow> content" where
  "link_to u = Child (Tag (str ''a'') (no_attrs(str ''href'' \<mapsto> u)) [])"

definition page1 :: tag where
  "page1 = Tag (str ''html'') no_attrs [Child card_pikachu, Child card_mew, link_to (str ''p2'')]"

definition page2 :: tag where
  "page2 = Tag (str ''html'') no_attrs [Child card_onix, link_to (str ''p3'')]"

definition page3 :: tag where
  "page3 = Tag (str ''html'') no_attrs [Child card_mew]"

definition page_dangling :: tag where
  "page_dangling = Tag (str ''html'') no_attrs [Child card_mew, link_to []]"

definition sample_get :: "ustr \<Rightarrow> error + response" where
  "sample_get u =
     (if u = str ''p1'' then Inr \<lparr>status_code = 200, resp_text = str ''one''\<rparr>
      else if u = str ''p2'' then Inr \<lparr>status_code = 200, resp_text = str ''two''\<rparr>
      else if u = str ''p3'' then Inr \<lparr>status_code = 200, resp_text = str ''three''\<rparr>
      else if u = str ''moved'' then Inr \<lparr>status_code = 304, resp_text = []\<rparr>
      else if u = str ''broken'' then Inr \<lparr>status_code = 500, resp_text = []\<rparr>
      else Inl ConnectionError)"

definition sample_parser :: "ustr \<Rightarrow> tag" where
  "sample_parser t =
     (if t = str ''one'' then page1
      else if t = str ''two'' then page2
      else if t = str ''three'' then page3
      else Tag [] no_attrs [])"

definition sample_repr :: "double \<Rightarrow> ustr" where
  "sample_repr v =
     (if v = Finite False (25 / 2) then str ''12.5''
      else if v = Finite False 3 then str ''3.0''
      else str ''nan'')"

definition sample_env :: env where
  "sample_env =
     \<lparr>ucd_db = ucd_sample, css = sample_css, http_get = sample_get,
      html_parser = sample_parser, float_repr = sample_repr,
      writable = (\<lambda>p. True), gspread_imported = False,
      worksheet_opens = (\<lambda>c i w. True)\<rparr>"

definition sample_sels :: selectors where
  "sample_sels =
     \<lparr>card_sel = str ''div'', name_sel = str ''h3'', price_sel = str ''span'',
      image_sel = str ''img'', next_page_sel = str ''a''\<rparr>"

definition sample_args :: "ustr \<Rightarrow> ustr option \<Rightarrow> ustr option \<Rightarrow> args" where
  "sample_args u sheet_id account =
     \<lparr>url = u, output_csv = str ''cards.csv'', delay = 1, max_pages = None,
      card_selector = str ''div'', name_selector = str ''h3'', price_selector = str ''span'',
      image_selector = str ''img'', next_selector = str ''a'',
      google_sheet_id = sheet_id, worksheet = str ''Cartes'', service_account = account\<rparr>"

definition empty_system :: system where
  "empty_system = \<lparr>files = (\<lambda>p. None), stdout = [], sheets = (\<lambda>k. None), sent = []\<rparr>"

definition pikachu :: card where
  "pikachu = \<lparr>name = str ''Pikachu'', price = Some (Finite False (25 / 2)),
      image_url = str ''pika.png''\<rparr>"

definition mew :: card where
  "mew = \<lparr>name = str ''Mew'', price = None, image_url = []\<rparr>"

definition onix :: card where
  "onix = \<lparr>name = str ''Onix'', price = Some (Finite False 3), image_url = str ''lazy.png''\<rparr>"


section \<open>Evaluation rules\<close>

lemmas text_defs = str_def euro_def nbsp_def space_def comma_def full_stop_def hyphen_minus_def
  replace_def strip_def is_space_def

lemma bit_length_0: "bit_length 0 = 0"
  by (simp add: bit_length.simps)

lemma bit_length_pos: "0 < n \<Longrightarrow> bit_length n = 1 + bit_length (n div 2)"
  by (subst bit_length.simps) simp

lemma floor_rat_numeral: "\<lfloor>(numeral a :: rat) / numeral b\<rfloor> = numeral a div numeral b"
  using floor_divide_of_int_eq [of "numeral a" "numeral b", where ?'a = rat] by simp

lemma ceiling_rat_numeral:
  "\<lceil>(numeral a :: rat) / numeral b\<rceil> = - ((- numeral a) div numeral b)"
  using floor_divide_of_int_eq [of "- numeral a" "numeral b", where ?'a = rat]
  by (simp add: ceiling_def)

lemmas double_defs = to_double_def binary64_def floor_log2_def pow2_def round_half_even_def
  bit_length_0 bit_length_pos Let_def floor_rat_numeral ceiling_rat_numeral

lemmas price_defs = normalize_price_def number_at_def unsigned_at_def is_digit_def
  digit_value_def float_def decimal_value_def digits_value_def ucd_sample_def double_defs

lemmas dom_defs = select_one_def get_text_strip_def extract_text_def extract_image_def
  parse_card_def parse_cards_def find_next_page_def

lemmas sample_defs = sample_css_def no_attrs_def leaf_def img_src_def img_lazy_def
  card_pikachu_def card_mew_def card_onix_def link_to_def page1_def page2_def page3_def
  page_dangling_def sample_get_def sample_parser_def sample_env_def sample_sels_def
  pikachu_def mew_def onix_def sample_args_def empty_system_def sample_repr_def

section \<open>Properties of the price normalizer\<close>

text \<open>
  The rounding at work: a number of \<open>2 ^ 1024\<close> or more becomes infinity, and a tie
  between two doubles goes to the even mantissa.
\<close>

lemma bit_length_nonneg: "0 \<le> bit_length n"
proof (induction n rule: bit_length.induct)
  case (1 n)
  then show ?case
    by (subst bit_length.simps) auto
qed

lemma bit_length_bounds:
  "0 < n \<Longrightarrow> 2 ^ nat (bit_length n - 1) \<le> n \<and> n < 2 ^ nat (bit_length n)"
proof (induction n rule: bit_length.induct)
  case (1 n)
  show ?case
  proof (cases "n = 1")
    case True
    then show ?thesis
      by (simp add: bit_length_pos bit_length_0)
  next
    case False
    define m where "m = n div 2"
    define b where "b = bit_length m"
    have m: "0 < m"
      using "1.prems" False by (simp add: m_def)
    have IH: "2 ^ nat (b - 1) \<le> m" "m < 2 ^ nat b"
      using "1.IH" "1.prems" m by (simp_all add: m_def b_def)
    have b: "1 \<le> b"
      using bit_length_pos [OF m] bit_length_nonneg [of "m div 2"] by (simp add: b_def)
    have bl: "bit_length n = 1 + b"
      using "1.prems" by (simp add: bit_length_pos b_def m_def)
    have e1: "(2::int) ^ nat b = 2 * 2 ^ nat (b - 1)"
      using b by (metis Suc_nat_eq_nat_zadd1 add.commute diff_add_cancel diff_ge_0_iff_ge power_Suc)
    have e2: "(2::int) ^ nat (1 + b) = 2 * 2 ^ nat b"
      using b by (simp add: nat_add_distrib)
    have "2 * m \<le> n" "n < 2 * m + 2"
      by (simp_all add: m_def)
    then show ?thesis
      using IH e1 e2 by (simp add: bl)
  qed
qed

lemma to_double_overflow:
  assumes "2 ^ 1024 \<le> q"
  shows "to_double neg q = Infinite neg"
proof -
  define n where "n = \<lfloor>q\<rfloor>"
  define k where "k = bit_length n - 1"
  have q1: "1 \<le> q"
    using assms by (rule order_trans [rotated]) simp
  have n: "2 ^ 1024 \<le> n"
    using assms by (simp add: n_def le_floor_iff)
  then have n0: "0 < n"
    by (rule less_le_trans [rotated]) simp
  have lo: "2 ^ nat k \<le> n" and hi: "n < 2 ^ nat (bit_length n)"
    using bit_length_bounds [OF n0] by (simp_all add: k_def)
  have "(2::int) ^ 1024 < 2 ^ nat (bit_length n)"
    using n hi by linarith
  then have "1024 < nat (bit_length n)"
    by (rule power_less_imp_less_exp [rotated]) simp
  then have k: "1024 \<le> k"
    by (simp add: k_def)
  have fl: "floor_log2 q = k"
    using q1 by (simp add: floor_log2_def k_def n_def)
  define e where "e = k - 52"
  have e: "max (floor_log2 q - 52) (- 1074) = e" "0 \<le> e"
    using k by (simp_all add: fl e_def)
  have ke: "nat k = 52 + nat e"
    using k by (simp add: e_def)
  have "of_int (2 ^ nat k) \<le> q"
    using lo by (metis n_def of_int_floor_le of_int_le_iff order_trans)
  then have "2 ^ 52 * 2 ^ nat e \<le> q"
    by (simp add: ke power_add)
  then have x: "2 ^ 52 \<le> q / pow2 e"
    using e(2) by (simp add: pow2_def le_divide_eq)
  have "\<lfloor>q / pow2 e\<rfloor> \<le> round_half_even (q / pow2 e)"
    by (simp add: round_half_even_def Let_def)
  moreover have "2 ^ 52 \<le> \<lfloor>q / pow2 e\<rfloor>"
    using x by (simp add: le_floor_iff)
  ultimately have "(2::int) ^ 52 \<le> round_half_even (q / pow2 e)"
    by linarith
  then have "(2::rat) ^ 52 \<le> of_int (round_half_even (q / pow2 e))"
    by (metis of_int_le_iff of_int_numeral of_int_power)
  then have up: "2 ^ 52 * pow2 e \<le> of_int (round_half_even (q / pow2 e)) * pow2 e"
    using e(2) by (simp add: pow2_def)
  have low: "(2::rat) ^ 1024 \<le> 2 ^ 52 * pow2 e"
  proof -
    have "(2::rat) ^ 1024 \<le> 2 ^ nat k"
      using k by (intro power_increasing) auto
    then show ?thesis
      using e(2) by (simp add: pow2_def ke power_add)
  qed
  have "binary64 q = of_int (round_half_even (q / pow2 e)) * pow2 e"
    using q1 by (simp add: binary64_def Let_def e(1))
  then have "2 ^ 1024 \<le> binary64 q"
    using order_trans [OF low up] by (simp only:)
  then show ?thesis
    by (simp add: to_double_def)
qed

lemma to_double_tie: "to_double False 9007199254740993 = Finite False 9007199254740992"
  by (simp add: double_defs)

text \<open>Whole numbers and signs, by evaluation.\<close>

lemma normalize_price_whole_numbers:
  "normalize_price ucd_sample (str ''-3 '' @ [euro]) = Some (Finite True 3)"
  "normalize_price ucd_sample (str ''3'') = Some (Finite False 3)"
  "normalize_price ucd_sample (str ''- 3'') = Some (Finite False 3)"
  "normalize_price ucd_sample (str ''-0'') = Some (Finite True 0)"
  by (simp_all add: text_defs price_defs)


lemma replace_remove: "replace c [] s = filter (\<lambda>x. x \<noteq> c) s"
  by (induction s) (simp_all add: replace_def)

lemma replace_one: "replace c [d] s = map (\<lambda>x. if x = c then d else x) s"
  by (induction s) (simp_all add: replace_def)

lemma set_strip: "set (strip s) \<subseteq> set s"
proof -
  have "set (strip s) = set (dropWhile is_space (rev (dropWhile is_space s)))"
    by (simp add: strip_def)
  also have "\<dots> \<subseteq> set (rev (dropWhile is_space s))"
    by (rule set_dropWhileD [THEN subsetI]) 
  also have "\<dots> \<subseteq> set s"
    using set_dropWhileD [of _ is_space s] by auto
  finally show ?thesis .
qed

lemma not_digit_ascii: "c < 48 \<Longrightarrow> \<not> is_digit db c"
  by (simp add: is_digit_def digit_value_def)

lemma unsigned_at_no_digit: "s = [] \<or> \<not> is_digit db (hd s) \<Longrightarrow> unsigned_at db s = None"
  by (cases s) (auto simp: unsigned_at_def)

lemma number_at_no_digit:
  assumes "\<forall>c\<in>set s. \<not> is_digit db c"
  shows "number_at db s = None"
proof (cases s)
  case Nil
  then show ?thesis by (simp add: number_at_def)
next
  case (Cons c r)
  have "unsigned_at db r = None"
    using assms Cons by (cases r) (auto intro: unsigned_at_no_digit)
  moreover have "unsigned_at db s = None"
    using assms Cons by (auto intro: unsigned_at_no_digit)
  ultimately show ?thesis
    using Cons by (auto simp: number_at_def)
qed

lemma re_search_no_digit: "\<forall>c\<in>set s. \<not> is_digit db c \<Longrightarrow> re_search db s = None"
proof (induction s)
  case Nil
  show ?case by simp
next
  case (Cons c s)
  have "number_at db (c # s) = None"
    using Cons.prems by (rule number_at_no_digit)
  with Cons show ?case by simp
qed

lemma cleaned_no_digit:
  assumes "\<forall>c\<in>set raw. \<not> is_digit db c"
  shows "\<forall>c\<in>set (replace comma [full_stop] (strip (replace nbsp [space] (replace euro [] raw)))). \<not> is_digit db c"
proof
  fix c
  assume "c \<in> set (replace comma [full_stop] (strip (replace nbsp [space] (replace euro [] raw))))"
  then have "c = full_stop \<or> c \<in> set (strip (replace nbsp [space] (replace euro [] raw)))"
    by (auto simp: replace_one split: if_splits)
  then have "c = full_stop \<or> c \<in> set (replace nbsp [space] (replace euro [] raw))"
    using set_strip by blast
  then have "c = full_stop \<or> c = space \<or> c \<in> set raw"
    by (auto simp: replace_one replace_remove split: if_splits)
  then show "\<not> is_digit db c"
    using assms by (auto simp: full_stop_def space_def not_digit_ascii)
qed

text \<open>
  C5. A raw price text with no digit in it (no ASCII digit and no other Unicode decimal
  digit), such as \<open>N/A\<close>, is normalized to the absent price. The result type of
  \<open>normalize_price\<close> has no error in it: the one call of its body that can raise is
  \<open>float\<close>, and its \<open>ValueError\<close> is turned into the absent price.
\<close>

theorem normalize_price_no_digit:
  "\<forall>c\<in>set raw. \<not> is_digit db c \<Longrightarrow> normalize_price db raw = None"
  using re_search_no_digit [OF cleaned_no_digit]
  by (simp add: normalize_price_def Let_def)

theorem normalize_price_no_digit_witness:
  "normalize_price ucd_sample (str ''N/A'') = None"
proof -
  have "\<forall>c\<in>set (str ''N/A''). \<not> is_digit ucd_sample c"
    by (simp add: str_def is_digit_def digit_value_def)
  then show ?thesis
    by (rule normalize_price_no_digit)
qed

lemma ascii_digit: "48 \<le> c \<and> c \<le> 57 \<Longrightarrow> is_digit db c"
  by (simp add: is_digit_def digit_value_def)

lemma not_digit_hyphen: "\<not> is_digit db hyphen_minus"
  by (simp add: hyphen_minus_def not_digit_ascii)

lemma re_search_skip:
  assumes "\<forall>c\<in>set p. \<not> is_digit db c" and "s = [] \<or> \<not> is_digit db (hd s)"
  shows "re_search db (p @ s) = re_search db s"
  using assms
proof (induction p)
  case Nil
  show ?case by simp
next
  case (Cons c p)
  have "p @ s = [] \<or> \<not> is_digit db (hd (p @ s))"
    using Cons.prems by (cases p) auto
  then have "unsigned_at db (p @ s) = None"
    by (rule unsigned_at_no_digit)
  moreover have "unsigned_at db (c # p @ s) = None"
    using Cons.prems by (auto intro: unsigned_at_no_digit)
  ultimately have "number_at db (c # p @ s) = None"
    by (auto simp: number_at_def)
  with Cons show ?case by simp
qed

lemma re_search_step:
  assumes "\<not> is_digit db c" and "c \<noteq> hyphen_minus"
  shows "re_search db (c # s) = re_search db s"
proof -
  have "unsigned_at db (c # s) = None"
    using assms(1) by (auto intro: unsigned_at_no_digit)
  then show ?thesis
    using assms(2) by (simp add: number_at_def)
qed

lemma unsigned_at_decimal:
  assumes ip: "ip \<noteq> []" "\<forall>c\<in>set ip. is_digit db c"
    and fp: "fp \<noteq> []" "\<forall>c\<in>set fp. is_digit db c"
    and t: "t = [] \<or> \<not> is_digit db (hd t)"
  shows "unsigned_at db (ip @ full_stop # fp @ t) = Some (ip @ full_stop # fp)"
proof -
  have fs: "\<not> is_digit db full_stop"
    by (simp add: full_stop_def not_digit_ascii)
  have a: "takeWhile (is_digit db) (ip @ full_stop # fp @ t) = ip"
    using ip fs by (simp add: takeWhile_append2)
  have b: "dropWhile (is_digit db) (ip @ full_stop # fp @ t) = full_stop # fp @ t"
    using ip fs by (simp add: dropWhile_append2)
  have "takeWhile (is_digit db) t = []"
    using t by (cases t) auto
  then have c: "takeWhile (is_digit db) (fp @ t) = fp"
    using fp by (simp add: takeWhile_append2)
  show ?thesis
    using ip(1) fp(1) by (simp add: unsigned_at_def a b c)
qed

lemma re_search_decimal:
  assumes ip: "ip \<noteq> []" "\<forall>c\<in>set ip. 48 \<le> c \<and> c \<le> 57"
    and fp: "fp \<noteq> []" "\<forall>c\<in>set fp. 48 \<le> c \<and> c \<le> 57"
    and t: "t = [] \<or> \<not> is_digit db (hd t)"
  shows "re_search db (ip @ full_stop # fp @ t) = Some (ip @ full_stop # fp)"
    and "re_search db (hyphen_minus # ip @ full_stop # fp @ t)
      = Some (hyphen_minus # ip @ full_stop # fp)"
proof -
  obtain d ip' where d: "ip = d # ip'"
    using ip(1) by (cases ip) auto
  have nh: "d \<noteq> hyphen_minus"
    using ip(2) d by (auto simp: hyphen_minus_def)
  have u: "unsigned_at db (ip @ full_stop # fp @ t) = Some (ip @ full_stop # fp)"
    using assms by (intro unsigned_at_decimal) (auto intro: ascii_digit)
  show "re_search db (ip @ full_stop # fp @ t) = Some (ip @ full_stop # fp)"
    using nh u by (simp add: d number_at_def)
  show "re_search db (hyphen_minus # ip @ full_stop # fp @ t)
      = Some (hyphen_minus # ip @ full_stop # fp)"
    using u by (simp add: number_at_def)
qed

text \<open>
  The first number of a text that has no digit before it: its sign is the minus sign
  that stands directly before it, if there is one.
\<close>

lemma re_search_signed:
  assumes p: "\<forall>c\<in>set p. \<not> is_digit db c"
    and ip: "ip \<noteq> []" "\<forall>c\<in>set ip. 48 \<le> c \<and> c \<le> 57"
    and fp: "fp \<noteq> []" "\<forall>c\<in>set fp. 48 \<le> c \<and> c \<le> 57"
    and t: "t = [] \<or> \<not> is_digit db (hd t)"
  shows "re_search db (p @ ip @ full_stop # fp @ t) =
    Some ((if p \<noteq> [] \<and> last p = hyphen_minus then [hyphen_minus] else [])
      @ ip @ full_stop # fp)"
proof (cases p rule: rev_cases)
  case Nil
  then show ?thesis
    using re_search_decimal(1) [OF ip fp t] by simp
next
  case (snoc p1 c)
  have p1: "\<forall>c\<in>set p1. \<not> is_digit db c" and c: "\<not> is_digit db c"
    using p snoc by auto
  have "re_search db (p1 @ c # ip @ full_stop # fp @ t)
      = re_search db (c # ip @ full_stop # fp @ t)"
    using c by (intro re_search_skip [OF p1]) simp
  moreover have "re_search db (c # ip @ full_stop # fp @ t) =
      Some ((if c = hyphen_minus then [hyphen_minus] else []) @ ip @ full_stop # fp)"
    using re_search_decimal [OF ip fp t] re_search_step [OF c] by auto
  ultimately show ?thesis
    using snoc by simp
qed

lemma float_decimal:
  assumes ip: "ip \<noteq> []" "\<forall>c\<in>set ip. 48 \<le> c \<and> c \<le> 57"
    and fp: "fp \<noteq> []" "\<forall>c\<in>set fp. 48 \<le> c \<and> c \<le> 57"
  shows "float db ((if neg then [hyphen_minus] else []) @ ip @ full_stop # fp) =
    Inr (to_double neg
      (of_nat (digits_value db ip) + of_nat (digits_value db fp) / 10 ^ length fp))"
proof -
  obtain d ip' where d: "ip = d # ip'"
    using ip(1) by (cases ip) auto
  have nh: "d \<noteq> hyphen_minus"
    using ip(2) d by (auto simp: hyphen_minus_def)
  have fs: "\<not> is_digit db full_stop"
    by (simp add: full_stop_def not_digit_ascii)
  have dig: "\<forall>c\<in>set ip. is_digit db c" "\<forall>c\<in>set fp. is_digit db c"
    using ip(2) fp(2) by (auto intro: ascii_digit)
  have a: "takeWhile (is_digit db) (ip @ full_stop # fp) = ip"
    using dig fs by (simp add: takeWhile_append2)
  have b: "dropWhile (is_digit db) (ip @ full_stop # fp) = full_stop # fp"
    using dig fs by (simp add: dropWhile_append2)
  have v: "decimal_value db (ip @ full_stop # fp) =
    Inr (of_nat (digits_value db ip) + of_nat (digits_value db fp) / 10 ^ length fp)"
    using ip(1) fp(1) dig(2) by (simp add: decimal_value_def a b list_all_iff)
  show ?thesis
  proof (cases neg)
    case True
    then show ?thesis
      using v by (simp add: float_def)
  next
    case False
    then show ?thesis
      using v nh by (simp add: float_def d)
  qed
qed

lemma dropWhile_stop: "\<not> P y \<Longrightarrow> dropWhile P (xs @ y # ys) = dropWhile P xs @ y # ys"
  by (induction xs) auto

lemma strip_middle:
  assumes "m \<noteq> []" "\<not> is_space (hd m)" "\<not> is_space (last m)"
  shows "strip (a @ m @ b) = dropWhile is_space a @ m @ rev (dropWhile is_space (rev b))"
proof -
  obtain x m' where m1: "m = x # m'"
    using assms(1) by (cases m) auto
  have m2: "rev m = last m # rev (butlast m)"
    using assms(1) by (metis append_butlast_last_id rev.simps(2) rev_append rev_singleton_conv append_Cons append_Nil)
  have 1: "dropWhile is_space (a @ m @ b) = dropWhile is_space a @ m @ b"
    using assms(2) by (simp add: m1 dropWhile_stop)
  have e: "rev (dropWhile is_space a @ m @ b) = rev b @ last m # (rev (butlast m) @ rev (dropWhile is_space a))"
    by (simp add: m2)
  have "dropWhile is_space (rev (dropWhile is_space a @ m @ b))
      = dropWhile is_space (rev b) @ last m # (rev (butlast m) @ rev (dropWhile is_space a))"
    unfolding e using assms(3) by (rule dropWhile_stop)
  then have "rev (dropWhile is_space (rev (dropWhile is_space a @ m @ b)))
      = dropWhile is_space a @ (butlast m @ [last m]) @ rev (dropWhile is_space (rev b))"
    by simp
  then show ?thesis
    using assms(1) by (simp add: strip_def 1)
qed

lemma rev_dropWhile_rev_hd:
  "rev (dropWhile P (rev b)) = [] \<or> hd (rev (dropWhile P (rev b))) = hd b"
proof -
  have "b = rev (dropWhile P (rev b)) @ rev (takeWhile P (rev b))"
    by (metis rev_append rev_rev_ident takeWhile_dropWhile_id)
  then show ?thesis
    by (metis hd_append2)
qed

lemma last_dropWhile:
  assumes "\<not> P h"
  shows "dropWhile P xs \<noteq> [] \<and> last (dropWhile P xs) = h \<longleftrightarrow> xs \<noteq> [] \<and> last xs = h"
proof -
  have "xs = takeWhile P xs @ dropWhile P xs"
    by simp
  then have 1: "last (dropWhile P xs) = last xs" if "dropWhile P xs \<noteq> []"
    using that by (metis last_appendR)
  have 2: "dropWhile P xs \<noteq> []" if "xs \<noteq> []" "last xs = h"
    using that assms by (auto simp: dropWhile_eq_Nil_conv)
  show ?thesis
    using 1 2 by (metis dropWhile.simps(1))
qed

text \<open>
  C4, as the code has it. The normalizer removes every currency symbol, turns each
  non-breaking space into an ordinary space (it does not remove it), trims white space
  at both ends, turns each comma into a full stop, and reads the first signed or
  unsigned, whole or decimal number of the cleaned text as a float. So for a raw text
  whose first number is written \<open>ip,fp\<close> with ASCII digits (nothing before it is a
  digit, and what follows it, currency symbols aside, does not start with a digit)
  the result is the double nearest to the decimal number \<open>ip.fp\<close> (infinity when
  that is beyond the doubles), and it is negative exactly when a minus sign stands
  directly before \<open>ip\<close>, currency symbols aside. \<open>12,50 \<euro>\<close> gives 12.5.
\<close>

theorem normalize_price_comma_decimal:
  assumes pre: "\<forall>c\<in>set pre. \<not> is_digit db c"
    and ip: "ip \<noteq> []" "\<forall>c\<in>set ip. 48 \<le> c \<and> c \<le> 57"
    and fp: "fp \<noteq> []" "\<forall>c\<in>set fp. 48 \<le> c \<and> c \<le> 57"
    and post: "case filter (\<lambda>c. c \<noteq> euro) post of [] \<Rightarrow> True | c # _ \<Rightarrow> \<not> is_digit db c"
  shows "normalize_price db (pre @ ip @ comma # fp @ post) =
    Some (to_double
      (filter (\<lambda>c. c \<noteq> euro) pre \<noteq> [] \<and> last (filter (\<lambda>c. c \<noteq> euro) pre) = hyphen_minus)
      (of_nat (digits_value db ip) + of_nat (digits_value db fp) / 10 ^ length fp))"
proof -
  define f where "f = (\<lambda>x. if x = nbsp then space else x)"
  define g where "g = (\<lambda>x. if x = comma then full_stop else x)"
  define F where "F = filter (\<lambda>c. c \<noteq> euro) pre"
  define A where "A = map f F"
  define B where "B = map f (filter (\<lambda>c. c \<noteq> euro) post)"
  define P where "P = map g (dropWhile is_space A)"
  define T where "T = map g (rev (dropWhile is_space (rev B)))"
  define neg where "neg \<longleftrightarrow> F \<noteq> [] \<and> last F = hyphen_minus"
  have keep: "filter (\<lambda>c. c \<noteq> euro) ds = ds \<and> map f ds = ds \<and> map g ds = ds"
    if "\<forall>c\<in>set ds. 48 \<le> c \<and> c \<le> 57" for ds
    using that by (induction ds) (auto simp: f_def g_def euro_def nbsp_def comma_def)
  have 1: "replace nbsp [space] (replace euro [] (pre @ ip @ comma # fp @ post))
      = A @ ip @ comma # fp @ B"
    using keep [OF ip(2)] keep [OF fp(2)]
    by (simp add: replace_remove replace_one A_def B_def F_def f_def [symmetric])
      (simp add: f_def comma_def euro_def nbsp_def)
  have hd_ip: "\<not> is_space (hd (ip @ comma # fp))"
    using ip by (cases ip) (auto simp: is_space_def)
  have last_fp: "\<not> is_space (last (ip @ comma # fp))"
    using fp by (cases fp rule: rev_cases) (auto simp: is_space_def)
  have 2: "strip (A @ ip @ comma # fp @ B)
      = dropWhile is_space A @ ip @ comma # fp @ rev (dropWhile is_space (rev B))"
    using strip_middle [of "ip @ comma # fp" A B] hd_ip last_fp by simp
  have 3: "replace comma [full_stop] (strip (A @ ip @ comma # fp @ B))
      = P @ ip @ full_stop # fp @ T"
    using keep [OF ip(2)] keep [OF fp(2)]
    by (simp add: 2 replace_one T_def P_def g_def [symmetric]) (simp add: g_def)
  have fnd: "\<not> is_digit db (f c)" if "\<not> is_digit db c" for c
    using that by (auto simp: f_def space_def not_digit_ascii)
  have gnd: "\<not> is_digit db (g c)" if "\<not> is_digit db c" for c
    using that by (auto simp: g_def full_stop_def not_digit_ascii)
  have "\<forall>c\<in>set A. \<not> is_digit db c"
    using pre fnd by (auto simp: A_def F_def)
  then have "\<forall>c\<in>set (dropWhile is_space A). \<not> is_digit db c"
    using set_dropWhileD by fast
  then have Pnd: "\<forall>c\<in>set P. \<not> is_digit db c"
    using gnd by (auto simp: P_def)
  have fh: "f c = hyphen_minus \<longleftrightarrow> c = hyphen_minus" for c
    by (auto simp: f_def hyphen_minus_def nbsp_def space_def)
  have gh: "g c = hyphen_minus \<longleftrightarrow> c = hyphen_minus" for c
    by (auto simp: g_def hyphen_minus_def comma_def full_stop_def)
  have "A \<noteq> [] \<and> last A = hyphen_minus \<longleftrightarrow> neg"
    by (auto simp: A_def neg_def last_map fh)
  moreover have "dropWhile is_space A \<noteq> [] \<and> last (dropWhile is_space A) = hyphen_minus
      \<longleftrightarrow> A \<noteq> [] \<and> last A = hyphen_minus"
    by (rule last_dropWhile) (simp add: is_space_def hyphen_minus_def)
  moreover have "P \<noteq> [] \<and> last P = hyphen_minus
      \<longleftrightarrow> dropWhile is_space A \<noteq> [] \<and> last (dropWhile is_space A) = hyphen_minus"
  proof (cases "dropWhile is_space A = []")
    case True
    then show ?thesis by (simp add: P_def)
  next
    case False
    then have "last P = g (last (dropWhile is_space A))"
      by (simp add: P_def last_map)
    then show ?thesis
      using False by (simp add: P_def gh)
  qed
  ultimately have Pneg: "P \<noteq> [] \<and> last P = hyphen_minus \<longleftrightarrow> neg"
    by blast
  have hdB: "B = [] \<or> \<not> is_digit db (hd B)"
    using post fnd
    by (cases "filter (\<lambda>c. c \<noteq> euro) post")
       (auto simp: B_def f_def space_def not_digit_ascii)
  have "T = [] \<or> \<not> is_digit db (hd T)"
  proof (cases "rev (dropWhile is_space (rev B)) = []")
    case True
    then show ?thesis by (simp add: T_def)
  next
    case False
    then have h: "hd (rev (dropWhile is_space (rev B))) = hd B" and "B \<noteq> []"
      using rev_dropWhile_rev_hd [of is_space B] by auto
    then have "\<not> is_digit db (hd B)"
      using hdB by simp
    then have "\<not> is_digit db (g (hd B))"
      by (rule gnd)
    then show ?thesis
      using False h by (simp add: T_def hd_map)
  qed
  then have "re_search db (P @ ip @ full_stop # fp @ T) =
      Some ((if P \<noteq> [] \<and> last P = hyphen_minus then [hyphen_minus] else [])
        @ ip @ full_stop # fp)"
    using ip fp by (intro re_search_signed [OF Pnd])
  then have m: "re_search db (P @ ip @ full_stop # fp @ T) =
      Some ((if neg then [hyphen_minus] else []) @ ip @ full_stop # fp)"
    using Pneg by simp
  show ?thesis
    using float_decimal [OF ip fp, of db neg]
    by (simp add: normalize_price_def 1 3 m neg_def F_def del: append_assoc append.simps)
qed

theorem normalize_price_comma_decimal_witness:
  "normalize_price ucd_sample (str ''12,50 '' @ [euro]) = Some (Finite False (25 / 2)) \<and>
   normalize_price ucd_sample (str ''-'' @ [euro] @ str ''12,50'') = Some (Finite True (25 / 2)) \<and>
   normalize_price ucd_sample (str ''0,1 '' @ [euro]) =
     Some (Finite False (3602879701896397 / 36028797018963968))"
proof -
  have a: "to_double False (25 / 2) = Finite False (25 / 2)"
    and b: "to_double True (25 / 2) = Finite True (25 / 2)"
    and c: "to_double False (1 / 10) = Finite False (3602879701896397 / 36028797018963968)"
    by (simp_all add: double_defs)
  show ?thesis
    using
      normalize_price_comma_decimal
        [of "[]" ucd_sample "str ''12''" "str ''50''" "str '' '' @ [euro]"]
      normalize_price_comma_decimal
        [of "str ''-'' @ [euro]" ucd_sample "str ''12''" "str ''50''" "[]"]
      normalize_price_comma_decimal
        [of "[]" ucd_sample "str ''0''" "str ''1''" "str '' '' @ [euro]"]
    by (simp add: str_def comma_def euro_def hyphen_minus_def digits_value_def digit_value_def
        is_digit_def ucd_sample_def a b c)
qed

text \<open>
  C4 as it is worded fails on a price with a non-breaking space between its digits,
  the French thousands separator: the code cuts the number at the space and returns 1
  for \<open>1 234,50 \<euro>\<close>, where stripping the non-breaking space gives 1234.5.
\<close>

theorem nbsp_inside_price_counterexample:
  "normalize_price ucd_sample (str ''1'' @ [nbsp] @ str ''234,50 '' @ [euro])
     = Some (Finite False 1) \<and>
   spec_normalize_price ucd_sample (str ''1'' @ [nbsp] @ str ''234,50 '' @ [euro])
     = Some (Finite False (2469 / 2))"
  by (simp add: text_defs price_defs spec_normalize_price_def)

section \<open>Properties of the field extractor and the page parser\<close>

text \<open>
  C6, as the code has it. When the selector engine reads the selector, the field
  extractor returns a text and raises nothing. With no matching element the name or
  price text and the image source are empty. With one, the text is the stripped text
  of the first match, and the image source is its \<open>src\<close> attribute when that is
  present and not empty, otherwise its \<open>data-src\<close> attribute (so an empty \<open>src\<close>
  falls back as a missing one does), and empty when that is missing too.
\<close>

theorem field_extractor_missing_elements:
  assumes "css e s node = Inr ts"
  shows "(ts = [] \<longrightarrow> extract_text e node s = Inr [] \<and> extract_image e node s = Inr []) \<and>
    (\<forall>t r. ts = t # r \<longrightarrow>
       extract_text e node s = Inr (get_text_strip t) \<and>
       (\<forall>v. attrs t (str ''src'') = Some v \<and> v \<noteq> [] \<longrightarrow> extract_image e node s = Inr v) \<and>
       (attrs t (str ''src'') = None \<or> attrs t (str ''src'') = Some [] \<longrightarrow>
          (\<forall>v. attrs t (str ''data-src'') = Some v \<longrightarrow> extract_image e node s = Inr v) \<and>
          (attrs t (str ''data-src'') = None \<longrightarrow> extract_image e node s = Inr [])))"
  using assms by (auto simp: extract_text_def extract_image_def select_one_def)

theorem field_extractor_missing_elements_witness:
  "extract_text sample_env card_mew (str ''img'') = Inr [] \<and>
   extract_image sample_env card_mew (str ''img'') = Inr [] \<and>
   extract_text sample_env card_pikachu (str ''h3'') = Inr (str ''Pikachu'') \<and>
   extract_image sample_env card_pikachu (str ''img'') = Inr (str ''pika.png'')"
proof -
  have a: "css sample_env (str ''img'') card_mew = Inr []"
    by (simp add: sample_defs text_defs)
  have b: "css sample_env (str ''img'') card_pikachu = Inr [img_src]"
    by (simp add: sample_defs text_defs)
  have c: "css sample_env (str ''h3'') card_pikachu = Inr [Tag (str ''h3'') no_attrs [NavigableString (str '' Pikachu '')]]"
    by (simp add: sample_defs text_defs)
  have d: "attrs img_src (str ''src'') = Some (str ''pika.png'')"
    by (simp add: sample_defs text_defs)
  show ?thesis
    using field_extractor_missing_elements [OF a] field_extractor_missing_elements [OF b]
      field_extractor_missing_elements [OF c] d
    by (simp add: get_text_strip_def text_defs)
qed

text \<open>
  C6 as it is worded fails on an image whose \<open>src\<close> attribute is present and
  empty, as lazy-loading markup has it: the primary attribute is not absent, and the
  extractor still returns the \<open>data-src\<close> attribute.
\<close>

theorem image_fallback_on_empty_src:
  "css sample_env (str ''img'') card_onix = Inr [img_lazy] \<and>
   attrs img_lazy (str ''src'') = Some [] \<and>
   extract_image sample_env card_onix (str ''img'') = Inr (str ''lazy.png'')"
  by (simp add: sample_defs text_defs dom_defs)

text \<open>
  C7. The next-page lookup returns the \<open>href\<close> of the first element that matches
  the next-page selector when that attribute is present and not empty, and none
  otherwise: when nothing matches, and when the first match has no \<open>href\<close> or an
  empty one.
\<close>

theorem find_next_page_target:
  assumes "css e (next_page_sel sels) soup = Inr ts"
  shows "(ts = [] \<longrightarrow> find_next_page e soup sels = Inr None) \<and>
    (\<forall>link r. ts = link # r \<longrightarrow>
       (\<forall>href. attrs link (str ''href'') = Some href \<and> href \<noteq> [] \<longrightarrow>
          find_next_page e soup sels = Inr (Some href)) \<and>
       (attrs link (str ''href'') = None \<or> attrs link (str ''href'') = Some [] \<longrightarrow>
          find_next_page e soup sels = Inr None))"
  using assms by (auto simp: find_next_page_def select_one_def)

theorem find_next_page_target_witness:
  "find_next_page sample_env page1 sample_sels = Inr (Some (str ''p2'')) \<and>
   find_next_page sample_env page3 sample_sels = Inr None \<and>
   find_next_page sample_env page_dangling sample_sels = Inr None"
proof -
  have a: "css sample_env (next_page_sel sample_sels) page1
      = Inr [Tag (str ''a'') (no_attrs(str ''href'' \<mapsto> str ''p2'')) []]"
    by (simp add: sample_defs text_defs)
  have b: "css sample_env (next_page_sel sample_sels) page3 = Inr []"
    by (simp add: sample_defs text_defs)
  have c: "css sample_env (next_page_sel sample_sels) page_dangling
      = Inr [Tag (str ''a'') (no_attrs(str ''href'' \<mapsto> [])) []]"
    by (simp add: sample_defs text_defs)
  show ?thesis
    using find_next_page_target [OF a] find_next_page_target [OF b] find_next_page_target [OF c]
    by (simp add: text_defs)
qed

section \<open>Properties of the pagination driver\<close>

lemma limit_reached_zero: "limit_reached (Some 0) = limit_reached None"
  by (simp add: fun_eq_iff limit_reached_def)

lemma loop_body_zero_limit:
  "loop_body e sels d (Some 0) u st = loop_body e sels d None u st"
  unfolding loop_body_def limit_reached_zero by (rule refl)

lemma fetch_loop_zero_limit:
  "fetch_loop e sels d (Some 0) fuel st = fetch_loop e sels d None fuel st"
  by (induction fuel arbitrary: st) (simp_all add: loop_body_zero_limit split: option.splits flow.splits)

text \<open>
  C10. A page limit of 0 is no limit: for every site, start URL, selectors, delay and
  fuel, \<open>fetch_cards\<close> with \<open>max_pages = 0\<close> does what it does with
  \<open>max_pages = None\<close>: the same result or exception, the same requests and sleeps,
  and it runs out of the same fuel.
\<close>

theorem zero_limit_is_no_limit:
  "fetch_cards e u sels d (Some 0) fuel = fetch_cards e u sels d None fuel"
  by (simp add: fetch_cards_def fetch_loop_zero_limit)

lemma parse_loop_map:
  "map (parse_card e sels) ns = map Inr cs \<Longrightarrow> parse_loop e sels ns acc = Inr (acc @ cs)"
proof (induction ns arbitrary: cs acc)
  case Nil
  then show ?case by simp
next
  case (Cons n ns)
  then obtain c cs' where cs: "cs = c # cs'" "parse_card e sels n = Inr c"
    "map (parse_card e sels) ns = map Inr cs'"
    by (cases cs) auto
  with Cons.IH [of cs' "acc @ [c]"] show ?case by simp
qed

lemma find_next_page_truthy: "find_next_page e s sels = Inr nxt \<Longrightarrow> truthy nxt \<longleftrightarrow> nxt \<noteq> None"
  by (cases nxt) (auto simp: find_next_page_def split: sum.splits option.splits if_splits)

lemma serves_loop_body:
  assumes "serves e sels u cs nxt"
  shows "loop_body e sels d mp u st =
    (if limit_reached mp (pages_seen st + 1)
     then Break (st\<lparr>collected := collected st @ cs, pages_seen := pages_seen st + 1,
                    trace := trace st @ [Get u]\<rparr>)
     else if nxt \<noteq> None
     then (if d < 0 then Raise ValueError (trace st @ [Get u])
           else Next (st\<lparr>collected := collected st @ cs, pages_seen := pages_seen st + 1,
                         next_url := nxt, trace := trace st @ [Get u, Sleep d]\<rparr>))
     else Next (st\<lparr>collected := collected st @ cs, pages_seen := pages_seen st + 1,
                   next_url := None, trace := trace st @ [Get u]\<rparr>))"
proof -
  obtain r ns where r: "http_get e u = Inr r" "raise_for_status r = Inr ()"
    "css e (card_sel sels) (html_parser e (resp_text r)) = Inr ns"
    "map (parse_card e sels) ns = map Inr cs"
    "find_next_page e (html_parser e (resp_text r)) sels = Inr nxt"
    using assms by (auto simp: serves_def split: sum.splits)
  have pc: "parse_cards e (html_parser e (resp_text r)) sels = Inr cs"
    using parse_loop_map [OF r(4), of "[]"] by (simp add: parse_cards_def r(3))
  show ?thesis
    using find_next_page_truthy [OF r(5)]
    by (auto simp: loop_body_def r pc Let_def)
qed

lemma sample_serves_p1:
  "serves sample_env sample_sels (str ''p1'') [pikachu, mew] (Some (str ''p2''))"
  by (simp add: serves_def raise_for_status_def text_defs price_defs dom_defs sample_defs)

lemma sample_serves_p2:
  "serves sample_env sample_sels (str ''p2'') [onix] (Some (str ''p3''))"
  by (simp add: serves_def raise_for_status_def text_defs price_defs dom_defs sample_defs)

lemma sample_serves_p3:
  "serves sample_env sample_sels (str ''p3'') [mew] None"
  by (simp add: serves_def raise_for_status_def text_defs price_defs dom_defs sample_defs)

text \<open>
  C1. On a site of three pages, where the first two pages have a next-page link and
  the third has none, \<open>fetch_cards\<close> with no page limit (and a delay that is not
  negative) requests exactly the three pages, in order, sleeping between them, and
  returns the cards of page 1, then those of page 2, then those of page 3, each page's
  cards in the order of its card containers; their number is the sum of the three
  pages' numbers. Three units of fuel are enough.
\<close>

theorem three_pages_no_limit:
  assumes "u1 \<noteq> []" and "0 \<le> d" and "3 \<le> fuel"
    and "serves e sels u1 cs1 (Some u2)"
    and "serves e sels u2 cs2 (Some u3)"
    and "serves e sels u3 cs3 None"
  shows "fetch_cards e u1 sels d None fuel =
      Some (Inr (cs1 @ cs2 @ cs3), [Get u1, Sleep d, Get u2, Sleep d, Get u3]) \<and>
    length (cs1 @ cs2 @ cs3) = length cs1 + length cs2 + length cs3"
proof -
  obtain k where k: "fuel = Suc (Suc (Suc k))"
    using assms(3) by (metis add_Suc_right add_Suc le_Suc_ex numeral_3_eq_3 plus_nat.add_0)
  have u2: "u2 \<noteq> []"
    using assms(4) find_next_page_truthy [of e _ sels "Some u2"]
    by (auto simp: serves_def split: sum.splits)
  have u3: "u3 \<noteq> []"
    using assms(5) find_next_page_truthy [of e _ sels "Some u3"]
    by (auto simp: serves_def split: sum.splits)
  have nl: "\<not> limit_reached None n" for n
    by (simp add: limit_reached_def)
  show ?thesis
    using assms(1,2) u2 u3
    by (simp add: fetch_cards_def k serves_loop_body [OF assms(4)] serves_loop_body [OF assms(5)]
        serves_loop_body [OF assms(6)] nl)
       (cases k; simp)
qed

theorem three_pages_no_limit_witness:
  "fetch_cards sample_env (str ''p1'') sample_sels 1 None 3 =
     Some (Inr [pikachu, mew, onix, mew],
       [Get (str ''p1''), Sleep 1, Get (str ''p2''), Sleep 1, Get (str ''p3'')])"
  using three_pages_no_limit [OF _ _ _ sample_serves_p1 sample_serves_p2 sample_serves_p3,
      of 1 3]
  by (simp add: str_def)

lemma paced_extend: "paced (t @ [Get u]) \<Longrightarrow> paced (t @ [Get u, Sleep d, Get v])"
  apply (induction t rule: paced.induct)
         apply auto
  subgoal for va vb
    by (cases va; cases vb) auto
  done

lemma loop_body_trace:
  "(loop_body e sels d mp u st = Raise err tr \<longrightarrow> tr = trace st @ [Get u]) \<and>
   (loop_body e sels d mp u st = Break st' \<longrightarrow> trace st' = trace st @ [Get u]) \<and>
   (loop_body e sels d mp u st = Next st' \<longrightarrow>
      (if truthy (next_url st') then trace st' = trace st @ [Get u, Sleep d]
       else trace st' = trace st @ [Get u]))"
  by (auto simp: loop_body_def Let_def split: sum.splits if_splits)

lemma fetch_loop_paced:
  assumes "fetch_loop e sels d mp fuel st = Some (out, tr)"
    and "if truthy (next_url st) then paced (trace st @ [Get (the (next_url st))])
         else paced (trace st)"
  shows "paced tr"
  using assms
proof (induction fuel arbitrary: st)
  case 0
  then show ?case by (auto split: if_splits)
next
  case (Suc k)
  show ?case
  proof (cases "truthy (next_url st)")
    case False
    with Suc.prems show ?thesis
      by (cases "next_url st") (auto split: if_splits)
  next
    case True
    then obtain u where u: "next_url st = Some u" "u \<noteq> []"
      by (cases "next_url st") auto
    have p: "paced (trace st @ [Get u])"
      using Suc.prems(2) True u by simp
    show ?thesis
    proof (cases "loop_body e sels d mp u st")
      case (Raise err tr')
      with Suc.prems(1) u p loop_body_trace [of e sels d mp u st err tr']
      show ?thesis by auto
    next
      case (Break st')
      with Suc.prems(1) u p loop_body_trace [of e sels d mp u st _ _ st']
      show ?thesis by auto
    next
      case (Next st')
      then have run: "fetch_loop e sels d mp k st' = Some (out, tr)"
        using Suc.prems(1) u by simp
      have tr: "if truthy (next_url st') then trace st' = trace st @ [Get u, Sleep d]
        else trace st' = trace st @ [Get u]"
        using Next loop_body_trace [of e sels d mp u st _ _ st'] by simp
      have "if truthy (next_url st') then paced (trace st' @ [Get (the (next_url st'))])
        else paced (trace st')"
        using tr p paced_extend [OF p, of d "the (next_url st')"] by (auto split: if_splits)
      with Suc.IH [OF run] show ?thesis by simp
    qed
  qed
qed

lemma fetch_cards_paced: "fetch_cards e u sels d mp n = Some (out, tr) \<Longrightarrow> paced tr"
  unfolding fetch_cards_def by (erule fetch_loop_paced) simp

lemma limit_reached_stops:
  assumes "next_url st = Some u" and "u \<noteq> []" and "serves e sels u cs nxt"
    and "limit_reached mp (pages_seen st + 1)"
  shows "fetch_loop e sels d mp (Suc k) st = Some (Inr (collected st @ cs), trace st @ [Get u])"
  using assms(1,2,4) by (simp add: serves_loop_body [OF assms(3)])

text \<open>
  C2. On the same site with a page limit of 2 (two units of fuel are enough),
  \<open>fetch_cards\<close> requests page 1, sleeps, requests page 2 and stops: the link of
  page 2 is not followed and no sleep comes after the last request. In general, the
  pass of the loop on which the page count reaches the limit ends the run with that
  request as the last event; with a limit of 1 this is the very first page, and the
  run is that one request. In every run that ends, whatever the limit, a sleep stands
  only between a request and the next one.
\<close>

theorem page_limit_stops_without_delay:
  assumes "u1 \<noteq> []" and "0 \<le> d" and "2 \<le> fuel"
    and "serves e sels u1 cs1 (Some u2)"
    and "serves e sels u2 cs2 (Some u3)"
  shows "fetch_cards e u1 sels d (Some 2) fuel =
      Some (Inr (cs1 @ cs2), [Get u1, Sleep d, Get u2]) \<and>
    (\<forall>st u cs nxt mp k.
       next_url st = Some u \<and> u \<noteq> [] \<and> serves e sels u cs nxt \<and>
       limit_reached mp (pages_seen st + 1) \<longrightarrow>
       fetch_loop e sels d mp (Suc k) st =
         Some (Inr (collected st @ cs), trace st @ [Get u])) \<and>
    (\<forall>u cs nxt k.
       u \<noteq> [] \<and> serves e sels u cs nxt \<longrightarrow>
       fetch_cards e u sels d (Some 1) (Suc k) = Some (Inr cs, [Get u])) \<and>
    (\<forall>u mp n out tr. fetch_cards e u sels d mp n = Some (out, tr) \<longrightarrow> paced tr)"
proof -
  obtain k where k: "fuel = Suc (Suc k)"
    using assms(3) by (metis add_2_eq_Suc le_Suc_ex)
  have u2: "u2 \<noteq> []"
    using assms(4) find_next_page_truthy [of e _ sels "Some u2"]
    by (auto simp: serves_def split: sum.splits)
  have a: "fetch_cards e u1 sels d (Some 2) fuel =
      Some (Inr (cs1 @ cs2), [Get u1, Sleep d, Get u2])"
    using assms(1,2) u2
    by (simp add: fetch_cards_def k serves_loop_body [OF assms(4)]
        serves_loop_body [OF assms(5)] limit_reached_def)
  have b: "fetch_cards e u sels d (Some 1) (Suc k) = Some (Inr cs, [Get u])"
    if "u \<noteq> []" "serves e sels u cs nxt" for u cs nxt k
    using limit_reached_stops [of "\<lparr>collected = [], pages_seen = 0, next_url = Some u, trace = []\<rparr>"
        u e sels cs nxt "Some 1" d k] that
    by (simp add: fetch_cards_def limit_reached_def)
  show ?thesis
  proof (intro conjI allI impI)
    show "fetch_cards e u1 sels d (Some 2) fuel =
      Some (Inr (cs1 @ cs2), [Get u1, Sleep d, Get u2])"
      by (rule a)
  next
    fix st :: loop_state and u cs nxt mp k
    assume "next_url st = Some u \<and> u \<noteq> [] \<and> serves e sels u cs nxt \<and>
       limit_reached mp (pages_seen st + 1)"
    then show "fetch_loop e sels d mp (Suc k) st =
         Some (Inr (collected st @ cs), trace st @ [Get u])"
      by (intro limit_reached_stops) auto
  next
    fix u cs nxt k
    assume "u \<noteq> [] \<and> serves e sels u cs nxt"
    then show "fetch_cards e u sels d (Some 1) (Suc k) = Some (Inr cs, [Get u])"
      using b by blast
  next
    fix u mp n out tr
    assume "fetch_cards e u sels d mp n = Some (out, tr)"
    then show "paced tr"
      by (rule fetch_cards_paced)
  qed
qed

theorem page_limit_stops_without_delay_witness:
  "fetch_cards sample_env (str ''p1'') sample_sels 1 (Some 2) 2 =
     Some (Inr [pikachu, mew, onix], [Get (str ''p1''), Sleep 1, Get (str ''p2'')]) \<and>
   fetch_cards sample_env (str ''p1'') sample_sels 1 (Some 1) 1 =
     Some (Inr [pikachu, mew], [Get (str ''p1'')]) \<and>
   paced [Get (str ''p1''), Sleep 1, Get (str ''p2'')]"
proof -
  have p1: "str ''p1'' \<noteq> []"
    by (simp add: str_def)
  have d: "(0::rat) \<le> 1" and f: "(2::nat) \<le> 2"
    by simp_all
  note t = page_limit_stops_without_delay [OF p1 d f sample_serves_p1 sample_serves_p2]
  have a: "fetch_cards sample_env (str ''p1'') sample_sels 1 (Some 2) 2 =
     Some (Inr ([pikachu, mew] @ [onix]), [Get (str ''p1''), Sleep 1, Get (str ''p2'')])"
    by (rule t [THEN conjunct1])
  have b: "fetch_cards sample_env (str ''p1'') sample_sels 1 (Some 1) (Suc 0) =
     Some (Inr [pikachu, mew], [Get (str ''p1'')])"
    using p1 sample_serves_p1
    by (intro t [THEN conjunct2, THEN conjunct2, THEN conjunct1, rule_format]) auto
  have c: "paced [Get (str ''p1''), Sleep 1, Get (str ''p2'')]"
    by (rule t [THEN conjunct2, THEN conjunct2, THEN conjunct2, rule_format, OF a])
  show ?thesis
    using a b c by simp
qed

section \<open>Properties of the program\<close>

text \<open>
  C3, as the code has it. When the request for the first page fails, by an exception
  of the session (a timeout, a connection error) or by a status from 400 to 599, the
  run ends at once with that exception: \<open>fetch_cards\<close> returns no cards, and
  \<open>main\<close> leaves the files, the output and the spreadsheets as they were; the one
  request is all that happened.
\<close>

theorem first_page_failure_aborts:
  assumes "url a \<noteq> []"
    and "http_get e (url a) = Inl err \<or>
      (\<exists>r. http_get e (url a) = Inr r \<and> 400 \<le> status_code r \<and> status_code r < 600 \<and>
         err = HTTPError (status_code r))"
  shows "fetch_cards e (url a) sels d mp (Suc k) = Some (Inl err, [Get (url a)]) \<and>
    main e (Suc k) a sys = Some (Some err, sys\<lparr>sent := sent sys @ [Get (url a)]\<rparr>)"
proof -
  have body: "loop_body e sels' d' mp' (url a) st = Raise err (trace st @ [Get (url a)])"
    for sels' d' mp' st
    using assms(2) by (auto simp: loop_body_def raise_for_status_def)
  have "fetch_cards e (url a) sels' d' mp' (Suc k) = Some (Inl err, [Get (url a)])"
    for sels' d' mp'
    using assms(1) by (simp add: fetch_cards_def body)
  then show ?thesis
    by (simp add: main_def)
qed

theorem first_page_failure_aborts_witness:
  "main sample_env 1 (sample_args (str ''broken'') None None) empty_system =
     Some (Some (HTTPError 500), empty_system\<lparr>sent := [Get (str ''broken'')]\<rparr>) \<and>
   main sample_env 1 (sample_args (str ''nowhere'') None None) empty_system =
     Some (Some ConnectionError, empty_system\<lparr>sent := [Get (str ''nowhere'')]\<rparr>)"
proof -
  have a: "url (sample_args (str ''broken'') None None) \<noteq> []"
    and b: "url (sample_args (str ''nowhere'') None None) \<noteq> []"
    by (simp_all add: sample_args_def str_def)
  have c: "http_get sample_env (url (sample_args (str ''broken'') None None))
      = Inr \<lparr>status_code = 500, resp_text = []\<rparr>"
    and d: "http_get sample_env (url (sample_args (str ''nowhere'') None None)) = Inl ConnectionError"
    by (simp_all add: sample_defs str_def)
  show ?thesis
    using first_page_failure_aborts [OF a, of sample_env "HTTPError 500" _ _ _ 0 empty_system]
      first_page_failure_aborts [OF b, of sample_env ConnectionError _ _ _ 0 empty_system] c d
    by (simp add: sample_args_def empty_system_def)
qed

text \<open>
  C3 as it is worded fails on a status outside 200 to 299 that \<open>raise_for_status\<close>
  lets through: a first page answered with 304 and no body is parsed as a page without
  cards, and the run writes the output file (its header row) and ends normally.
\<close>

theorem status_304_writes_file_counterexample:
  "http_get sample_env (str ''moved'') = Inr \<lparr>status_code = 304, resp_text = []\<rparr> \<and>
   main sample_env 1 (sample_args (str ''moved'') None None) empty_system =
     Some (None,
       \<lparr>files = (\<lambda>p. None)(str ''cards.csv'' \<mapsto> str ''name,price,image_url'' @ [cr, lf]),
        stdout = [Wrote 0 (str ''cards.csv'')], sheets = (\<lambda>k. None),
        sent = [Get (str ''moved'')]\<rparr>)"
  by (simp add: main_def selectors_of_def fetch_cards_def loop_body_def raise_for_status_def
      limit_reached_def write_csv_def writerow_def header_def csv_field_def needs_quoting_def
      quotechar_def cr_def lf_def text_defs dom_defs sample_defs)

text \<open>
  C9. When a spreadsheet identifier is supplied and the fetch and the CSV export have
  succeeded, a missing (or empty) credential path ends the run with \<open>SystemExit\<close>
  before the upload, and, with a credential path, a client library that was not
  imported ends it with \<open>RuntimeError\<close> at the upload. In both cases the output
  file holds the exported cards and no spreadsheet was touched.
\<close>

theorem sheet_misconfiguration_keeps_csv:
  assumes "fetch_cards e (url a) (selectors_of a) (delay a) (max_pages a) fuel
      = Some (Inr cards, tr)"
    and "writable e (output_csv a)"
    and "google_sheet_id a = Some sheet_id" and "sheet_id \<noteq> []"
    and "s = sys\<lparr>sent := sent sys @ tr,
            files := (files sys)(output_csv a \<mapsto> write_rows e cards (writerow header)),
            stdout := stdout sys @ [Wrote (length cards) (output_csv a)]\<rparr>"
  shows "(\<not> truthy (service_account a) \<longrightarrow>
       main e fuel a sys =
         Some (Some (SystemExit
           (str ''--service-account is required when --google-sheet-id is provided'')), s)) \<and>
    (truthy (service_account a) \<and> \<not> gspread_imported e \<longrightarrow>
       main e fuel a sys =
         Some (Some (RuntimeError
           (str ''gspread and google-auth are required for Google Sheets export. Install them first.'')), s)) \<and>
    files s (output_csv a) = Some (write_rows e cards (writerow header)) \<and>
    sheets s = sheets sys"
  using assms
  by (simp add: main_def write_csv_def push_to_google_sheet_def)

theorem sheet_misconfiguration_keeps_csv_witness:
  "main sample_env 1 (sample_args (str ''p3'') (Some (str ''sheet'')) None) empty_system =
     Some (Some (SystemExit
       (str ''--service-account is required when --google-sheet-id is provided'')),
       \<lparr>files = (\<lambda>p. None)(str ''cards.csv'' \<mapsto>
          str ''name,price,image_url'' @ [cr, lf] @ str ''Mew,,'' @ [cr, lf]),
        stdout = [Wrote 1 (str ''cards.csv'')], sheets = (\<lambda>k. None),
        sent = [Get (str ''p3'')]\<rparr>) \<and>
   main sample_env 1 (sample_args (str ''p3'') (Some (str ''sheet'')) (Some (str ''key.json'')))
       empty_system =
     Some (Some (RuntimeError
       (str ''gspread and google-auth are required for Google Sheets export. Install them first.'')),
       \<lparr>files = (\<lambda>p. None)(str ''cards.csv'' \<mapsto>
          str ''name,price,image_url'' @ [cr, lf] @ str ''Mew,,'' @ [cr, lf]),
        stdout = [Wrote 1 (str ''cards.csv'')], sheets = (\<lambda>k. None),
        sent = [Get (str ''p3'')]\<rparr>)"
proof -
  have run: "fetch_cards sample_env (url (sample_args (str ''p3'') i c))
      (selectors_of (sample_args (str ''p3'') i c)) (delay (sample_args (str ''p3'') i c))
      (max_pages (sample_args (str ''p3'') i c)) 1 = Some (Inr [mew], [Get (str ''p3'')])" for i c
    using serves_loop_body [OF sample_serves_p3, of 1 None
        "\<lparr>collected = [], pages_seen = 0, next_url = Some (str ''p3''), trace = []\<rparr>"]
    by (simp add: fetch_cards_def sample_args_def selectors_of_def sample_sels_def
        limit_reached_def str_def)
  have w: "writable sample_env (output_csv (sample_args (str ''p3'') i c))" for i c
    by (simp add: sample_env_def)
  have g: "\<not> gspread_imported sample_env"
    by (simp add: sample_env_def)
  have csv: "writerow header @ writerow (card_row sample_env mew) =
      str ''name,price,image_url'' @ [cr, lf] @ str ''Mew,,'' @ [cr, lf]"
    by (simp add: writerow_def header_def card_row_def price_field_def csv_field_def
        needs_quoting_def quotechar_def cr_def lf_def comma_def str_def mew_def)
  show ?thesis
    using
      sheet_misconfiguration_keeps_csv [OF run w _ _ refl,
        of "Some (str ''sheet'')" None "str ''sheet''" empty_system]
      sheet_misconfiguration_keeps_csv [OF run w _ _ refl,
        of "Some (str ''sheet'')" "Some (str ''key.json'')" "str ''sheet''" empty_system]
    by (simp add: csv g sample_args_def empty_system_def str_def)
qed

end
